theory Spec2Isabelle
  imports Main
begin

section \<open>jp-prev-bizday: the previous business day before a date\<close>

text \<open>
  The program (\<^verbatim>\<open>main.go\<close>) parses a base date, walks backwards one calendar day at a
  time for at most 30 days, asks a remote holiday service about every candidate that is not
  a Saturday or Sunday, and prints the first candidate that is neither a weekend day nor a
  reported holiday. This theory embeds the functions \<^verbatim>\<open>findPreviousBusinessDay\<close>,
  \<^verbatim>\<open>isBusinessDay\<close>, \<^verbatim>\<open>isWeekend\<close>, \<^verbatim>\<open>checkHoliday\<close> and
  \<^verbatim>\<open>main\<close> and proves the properties the specification states about them.
\<close>

subsection \<open>Dates (Go's \<^verbatim>\<open>time.Time\<close>)\<close>

text \<open>
  A \<^verbatim>\<open>time.Time\<close> is a calendar day, a wall clock within that day and a location.
  The calendar day is counted in the proleptic Gregorian calendar from 0001-01-01, the day of
  Go's zero time, which is day 0 and a Monday. The day count is an unbounded integer: Go's
  64-bit range of seconds is about 292 billion years in each direction and no date that
  \<^verbatim>\<open>time.Parse\<close> (years 0000 to 9999) or \<^verbatim>\<open>time.Now\<close> yields comes near it.
\<close>

datatype location = UTC | Asia_Tokyo

record time =
  abs_day :: int
  wall_clock :: nat
  loc :: location

text \<open>\<^verbatim>\<open>time.Time{}\<close>: January 1, year 1, 00:00:00 UTC.\<close>

definition zero_time :: time where
  "zero_time = \<lparr>abs_day = 0, wall_clock = 0, loc = UTC\<rparr>"

datatype weekday = Sunday | Monday | Tuesday | Wednesday | Thursday | Friday | Saturday

text \<open>\<^verbatim>\<open>time.Weekday\<close> numbers the days from Sunday = 0 to Saturday = 6.\<close>

definition weekday_of_num :: "int \<Rightarrow> weekday" where
  "weekday_of_num n =
     (if n = 0 then Sunday else if n = 1 then Monday else if n = 2 then Tuesday
      else if n = 3 then Wednesday else if n = 4 then Thursday
      else if n = 5 then Friday else Saturday)"

definition Weekday :: "time \<Rightarrow> weekday" where
  "Weekday t = weekday_of_num ((abs_day t + 1) mod 7)"

text \<open>
  Year, month and day of the month of a day count, and the day count of a civil date
  (the era-based conversion between day counts and the proleptic Gregorian calendar;
  day 0 is 0001-01-01, that is 306 days after 0000-03-01).
\<close>

definition civil_of_day :: "int \<Rightarrow> int \<times> int \<times> int" where
  "civil_of_day n =
     (let z = n + 306;
          era = z div 146097;
          doe = z mod 146097;
          yoe = (doe - doe div 1460 + doe div 36524 - doe div 146096) div 365;
          doy = doe - (365 * yoe + yoe div 4 - yoe div 100);
          mp = (5 * doy + 2) div 153;
          d = doy - (153 * mp + 2) div 5 + 1;
          m = (if mp < 10 then mp + 3 else mp - 9);
          y = yoe + era * 400 + (if m \<le> 2 then 1 else 0)
      in (y, m, d))"

definition day_of_civil :: "int \<Rightarrow> int \<Rightarrow> int \<Rightarrow> int" where
  "day_of_civil y m d =
     (let y' = (if m \<le> 2 then y - 1 else y);
          era = y' div 400;
          yoe = y' mod 400;
          doy = (153 * (if m > 2 then m - 3 else m + 9) + 2) div 5 + d - 1;
          doe = yoe * 365 + yoe div 4 - yoe div 100 + doy
      in era * 146097 + doe - 306)"

definition Year :: "time \<Rightarrow> int" where
  "Year t = fst (civil_of_day (abs_day t))"

definition Month :: "time \<Rightarrow> int" where
  "Month t = fst (snd (civil_of_day (abs_day t)))"

definition Day :: "time \<Rightarrow> int" where
  "Day t = snd (snd (civil_of_day (abs_day t)))"

text \<open>
  \<^verbatim>\<open>t.AddDate(years, months, days)\<close>: the date with the three numbers added to year,
  month and day of the month, normalised as \<^verbatim>\<open>time.Date\<close> does it (a month outside
  1 to 12 carries into the year, a day outside the month carries into the neighbouring
  months), at the same wall clock and location. Neither UTC nor Asia/Tokyo has a clock
  change that would move the wall clock.
\<close>

definition AddDate :: "time \<Rightarrow> int \<Rightarrow> int \<Rightarrow> int \<Rightarrow> time" where
  "AddDate t years months days =
     (let year = Year t + years;
          m = Month t - 1 + months;
          year' = year + m div 12;
          month' = m mod 12 + 1
      in t\<lparr>abs_day := day_of_civil year' month' (Day t + days)\<rparr>)"

subsection \<open>The holiday service\<close>

text \<open>The decoded JSON body of a response (\<^verbatim>\<open>HolidayResponse\<close>).\<close>

record HolidayResponse =
  Holiday :: bool
  Name :: string

text \<open>
  What one GET of \<^verbatim>\<open>https://jp-holiday.net/api/v1/holiday/Y/MM/DD\<close> comes back with:
  no response at all (network failure or the 5 second timeout), or a status code with a
  body, which is \<open>None\<close> when it does not decode as JSON. The service is a function of
  the year, month and day in the URL (a run requests no URL twice, see \<open>requests_distinct\<close>
  below); the list of URLs requested so far is the state that the calls thread through.
\<close>

datatype http_reply = Transport_failure | Reply nat "HolidayResponse option"

type_synonym request = "int \<times> int \<times> int"

type_synonym api = "request \<Rightarrow> http_reply"

text \<open>
  The errors of the program: the three of \<^verbatim>\<open>checkHoliday\<close> (the GET fails, the status
  is not 200, the body does not decode) and the two of \<^verbatim>\<open>findPreviousBusinessDay\<close>
  (the error of \<^verbatim>\<open>isBusinessDay\<close>, wrapped, and "no business day found").
\<close>

datatype error =
    API_call_error
  | API_status_error nat
  | JSON_parse_error
  | Business_day_error error
  | Not_found

text \<open>
  The URL of a date, as \<^verbatim>\<open>checkHoliday\<close> formats it from year, month and day, and the
  call: it records the request and reads the reply in the order of the source.
\<close>

definition url_of :: "time \<Rightarrow> request" where
  "url_of date = (Year date, Month date, Day date)"

definition checkHoliday ::
  "api \<Rightarrow> time \<Rightarrow> request list \<Rightarrow> (bool \<times> string \<times> error option) \<times> request list" where
  "checkHoliday api date net =
     (let url = url_of date;
          net' = net @ [url]
      in case api url of
           Transport_failure \<Rightarrow> ((False, [], Some API_call_error), net')
         | Reply code body \<Rightarrow>
             if code \<noteq> 200 then ((False, [], Some (API_status_error code)), net')
             else (case body of
                     None \<Rightarrow> ((False, [], Some JSON_parse_error), net')
                   | Some holiday \<Rightarrow> ((Holiday holiday, Name holiday, None), net')))"

subsection \<open>The scan\<close>

definition isWeekend :: "time \<Rightarrow> bool" where
  "isWeekend date = (let weekday = Weekday date in weekday = Saturday \<or> weekday = Sunday)"

definition isBusinessDay ::
  "api \<Rightarrow> time \<Rightarrow> request list \<Rightarrow> (bool \<times> error option) \<times> request list" where
  "isBusinessDay api date net =
     (if isWeekend date then ((False, None), net)
      else (case checkHoliday api date net of
              ((isHoliday, name, err), net') \<Rightarrow>
                (case err of
                   Some e \<Rightarrow> ((False, Some e), net')
                 | None \<Rightarrow> ((\<not> isHoliday, None), net'))))"

definition maxDays :: nat where
  "maxDays = 30"

text \<open>
  The \<^verbatim>\<open>for\<close> loop of \<^verbatim>\<open>findPreviousBusinessDay\<close>, from its state at the head of
  an iteration: the counter \<open>i\<close> and the candidate \<open>current\<close>.
\<close>

function findPreviousBusinessDay_loop ::
  "api \<Rightarrow> nat \<Rightarrow> time \<Rightarrow> request list \<Rightarrow> (time \<times> error option) \<times> request list" where
  "findPreviousBusinessDay_loop api i current net =
     (if i < maxDays then
        (case isBusinessDay api current net of
           ((isBizDay, err), net') \<Rightarrow>
             (case err of
                Some e \<Rightarrow> ((zero_time, Some (Business_day_error e)), net')
              | None \<Rightarrow>
                  if isBizDay then ((current, None), net')
                  else findPreviousBusinessDay_loop api (i + 1) (AddDate current 0 0 (- 1)) net'))
      else ((zero_time, Some Not_found), net))"
  by pat_completeness auto
termination
  by (relation "measure (\<lambda>(api, i, current, net). maxDays - i)") auto

definition findPreviousBusinessDay ::
  "api \<Rightarrow> time \<Rightarrow> request list \<Rightarrow> (time \<times> error option) \<times> request list" where
  "findPreviousBusinessDay api from net =
     findPreviousBusinessDay_loop api 0 (AddDate from 0 0 (- 1)) net"

subsection \<open>Vocabulary of the specification\<close>

text \<open>
  What the service answers about a date, as \<^verbatim>\<open>checkHoliday\<close> reads it: \<open>Inr h\<close> when
  the call succeeds with the holiday flag \<open>h\<close>, \<open>Inl e\<close> when it fails with the error \<open>e\<close>.
\<close>

definition holiday_answer :: "api \<Rightarrow> time \<Rightarrow> error + bool" where
  "holiday_answer api date =
     (case fst (checkHoliday api date []) of
        (isHoliday, name, err) \<Rightarrow> (case err of Some e \<Rightarrow> Inl e | None \<Rightarrow> Inr isHoliday))"

text \<open>A reply that makes \<^verbatim>\<open>checkHoliday\<close> return an error.\<close>

definition failed_reply :: "http_reply \<Rightarrow> bool" where
  "failed_reply r =
     (case r of Transport_failure \<Rightarrow> True | Reply code body \<Rightarrow> code \<noteq> 200 \<or> body = None)"

text \<open>A reply with the holiday name blanked: what is left is all but the name.\<close>

definition erase_name :: "http_reply \<Rightarrow> http_reply" where
  "erase_name r =
     (case r of Transport_failure \<Rightarrow> Transport_failure
      | Reply code body \<Rightarrow> Reply code (map_option (\<lambda>h. h\<lparr>Name := []\<rparr>) body))"

text \<open>
  The \<open>k\<close>-th calendar day before a date, the first \<open>n\<close> days before it in the order
  of the scan, and the requests that the scan sends for them: one for every candidate that
  is not a weekend day.
\<close>

definition days_before :: "time \<Rightarrow> nat \<Rightarrow> time" where
  "days_before from k = from\<lparr>abs_day := abs_day from - int k\<rparr>"

definition candidates :: "time \<Rightarrow> nat \<Rightarrow> time list" where
  "candidates from n = map (days_before from) [1..<Suc n]"

definition probes :: "time \<Rightarrow> nat \<Rightarrow> request list" where
  "probes from n = map url_of (filter (\<lambda>c. \<not> isWeekend c) (candidates from n))"

text \<open>
  A business day is a weekday that the service answers is no holiday; a non-business day is
  a Saturday, a Sunday or a day that the service answers is a holiday. A weekday on which
  the call fails is neither.
\<close>

definition non_business_day :: "api \<Rightarrow> time \<Rightarrow> bool" where
  "non_business_day api date \<longleftrightarrow> isWeekend date \<or> holiday_answer api date = Inr True"

definition business_day :: "api \<Rightarrow> time \<Rightarrow> bool" where
  "business_day api date \<longleftrightarrow> \<not> isWeekend date \<and> holiday_answer api date = Inr False"

subsection \<open>The command line\<close>

text \<open>
  \<^verbatim>\<open>time.Date(y, m, d, 0, 0, 0, 0, time.UTC)\<close>, and what
  \<^verbatim>\<open>time.Parse("2006-01-02", v)\<close> accepts: four digits, a hyphen, two digits, a hyphen and
  two digits with nothing after them, the month in 1 to 12 and the day within the month.
  \<open>Parse_ISO\<close> is the instance at which the properties of \<open>main\<close> are evaluated;
  \<open>main\<close> itself takes the parser as a parameter and the properties hold for every parser.
\<close>

definition Date :: "int \<Rightarrow> int \<Rightarrow> int \<Rightarrow> time" where
  "Date y m d = \<lparr>abs_day = day_of_civil y m d, wall_clock = 0, loc = UTC\<rparr>"

definition isLeap :: "int \<Rightarrow> bool" where
  "isLeap year \<longleftrightarrow> year mod 4 = 0 \<and> (year mod 100 \<noteq> 0 \<or> year mod 400 = 0)"

definition daysIn :: "int \<Rightarrow> int \<Rightarrow> int" where
  "daysIn m year =
     (if m = 2 then (if isLeap year then 29 else 28)
      else if m = 4 \<or> m = 6 \<or> m = 9 \<or> m = 11 then 30 else 31)"

definition isDigit :: "char \<Rightarrow> bool" where
  "isDigit c \<longleftrightarrow> 48 \<le> (of_char c :: nat) \<and> (of_char c :: nat) \<le> 57"

definition atoi :: "string \<Rightarrow> int" where
  "atoi s = foldl (\<lambda>n c. 10 * n + (int (of_char c) - 48)) 0 s"

definition Parse_ISO :: "string \<Rightarrow> time option" where
  "Parse_ISO v =
     (if length v = 10 \<and> list_all isDigit (take 4 v) \<and> v ! 4 = CHR ''-''
         \<and> list_all isDigit (take 2 (drop 5 v)) \<and> v ! 7 = CHR ''-''
         \<and> list_all isDigit (drop 8 v)
      then (let year = atoi (take 4 v); month = atoi (take 2 (drop 5 v)); day = atoi (drop 8 v)
            in if month < 1 \<or> 12 < month then None
               else if day < 1 \<or> daysIn month year < day then None
               else Some (Date year month day))
      else None)"

text \<open>
  The flags after \<^verbatim>\<open>flag.Parse\<close> (\<open>dateStr\<close> is empty when \<^verbatim>\<open>-date\<close> is not given),
  what the program prints (one constructor for each message, carrying the values that the
  message formats) and what a run leaves behind: the exit status, the two output streams,
  the base dates handed to \<^verbatim>\<open>findPreviousBusinessDay\<close> and the requests sent.
\<close>

record flags =
  dateStr :: string
  verbose :: bool
  help_flag :: bool

datatype message =
    Help_text
  | Invalid_date_format string
  | Error_report error
  | Simple_line time
  | Verbose_lines time time

record run =
  exit_status :: nat
  stdout :: "message list"
  stderr :: "message list"
  scanned :: "time list"
  requests :: "request list"

text \<open>
  \<^verbatim>\<open>main\<close>, with the environment as parameters: \<open>Parse\<close> is
  \<^verbatim>\<open>time.Parse("2006-01-02", _)\<close> (\<open>None\<close> for its error) and \<open>now\<close> is
  \<^verbatim>\<open>time.Now().In(jst)\<close>.
\<close>

definition main :: "(string \<Rightarrow> time option) \<Rightarrow> time \<Rightarrow> api \<Rightarrow> flags \<Rightarrow> run" where
  "main Parse now api fl =
     (if help_flag fl
      then \<lparr>exit_status = 0, stdout = [Help_text], stderr = [], scanned = [], requests = []\<rparr>
      else (case (if dateStr fl = [] then Some now else Parse (dateStr fl)) of
              None \<Rightarrow>
                \<lparr>exit_status = 1, stdout = [], stderr = [Invalid_date_format (dateStr fl)],
                 scanned = [], requests = []\<rparr>
            | Some baseDate \<Rightarrow>
                (case findPreviousBusinessDay api baseDate [] of
                   ((prevBizDay, err), net) \<Rightarrow>
                     (case err of
                        Some e \<Rightarrow>
                          \<lparr>exit_status = 1, stdout = [], stderr = [Error_report e],
                           scanned = [baseDate], requests = net\<rparr>
                      | None \<Rightarrow>
                          \<lparr>exit_status = 0,
                           stdout = [if verbose fl then Verbose_lines baseDate prevBizDay
                                     else Simple_line prevBizDay],
                           stderr = [], scanned = [baseDate], requests = net\<rparr>))))"

subsection \<open>Holiday services for concrete runs\<close>

text \<open>
  A service without holidays; one with the Golden Week of 2025 (Saturday 3 May to Tuesday
  6 May); the same with other holiday names; the same with status 503 for 5 May; and
  one that calls every day a holiday.
\<close>

definition no_holidays :: api where
  "no_holidays q = Reply 200 (Some \<lparr>Holiday = False, Name = []\<rparr>)"

definition golden_week :: api where
  "golden_week q =
     (if q = (2025, 5, 3) then Reply 200 (Some \<lparr>Holiday = True, Name = ''Constitution Day''\<rparr>)
      else if q = (2025, 5, 4) then Reply 200 (Some \<lparr>Holiday = True, Name = ''Greenery Day''\<rparr>)
      else if q = (2025, 5, 5) then Reply 200 (Some \<lparr>Holiday = True, Name = ''Children's Day''\<rparr>)
      else if q = (2025, 5, 6) then Reply 200 (Some \<lparr>Holiday = True, Name = ''Substitute holiday''\<rparr>)
      else Reply 200 (Some \<lparr>Holiday = False, Name = []\<rparr>))"

definition golden_week_renamed :: api where
  "golden_week_renamed q =
     (case golden_week q of
        Reply code (Some h) \<Rightarrow> Reply code (Some (h\<lparr>Name := ''shukujitsu''\<rparr>))
      | r \<Rightarrow> r)"

definition outage :: api where
  "outage q = (if q = (2025, 5, 5) then Reply 503 None else golden_week q)"

definition always_holiday :: api where
  "always_holiday q = Reply 200 (Some \<lparr>Holiday = True, Name = ''Holiday''\<rparr>)"

section \<open>Properties\<close>

subsection \<open>The calendar\<close>

text \<open>
  Within a 400-year era the estimate of the year is exact enough: it is a year of the era,
  and the day lies in that year. The day count of the civil date of a day is that day again,
  so different days have different dates, and the URLs of different days differ.
\<close>

lemma year_decode:
  fixes doe :: int
  assumes "0 \<le> doe" "doe \<le> 146096"
  defines "yoe \<equiv> (doe - doe div 1460 + doe div 36524 - doe div 146096) div 365"
  shows "0 \<le> yoe \<and> yoe \<le> 399
       \<and> 0 \<le> doe - (365 * yoe + yoe div 4 - yoe div 100)
       \<and> doe - (365 * yoe + yoe div 4 - yoe div 100) \<le> 365"
proof (cases "doe = 146096")
  case True
  then show ?thesis by (simp add: yoe_def)
next
  case False
  define c where "c = doe div 36524"
  define r where "r = doe mod 36524"
  define q where "q = r div 1461"
  define t where "t = r mod 1461"
  have doe: "doe = 36524 * c + r" and r: "0 \<le> r" "r < 36524"
    by (simp_all add: c_def r_def)
  have c: "0 \<le> c" "c \<le> 3"
    using assms(1,2) False unfolding c_def by arith+
  have rq: "r = 1461 * q + t" and t: "0 \<le> t" "t < 1461"
    by (simp_all add: q_def t_def)
  have q: "0 \<le> q" "q \<le> 24"
    using r unfolding q_def by arith+
  define dl :: int where "dl = (if 1460 \<le> q + t + 24 * c then 1 else 0)"
  have d1460: "doe div 1460 = 25 * c + q + dl"
  proof (rule int_div_pos_eq)
    show "doe = 1460 * (25 * c + q + dl) + (q + t + 24 * c - 1460 * dl)"
      by (simp add: doe rq)
    show "0 \<le> q + t + 24 * c - 1460 * dl"
      using q t c by (simp add: dl_def)
    show "q + t + 24 * c - 1460 * dl < 1460"
      using q t c by (simp add: dl_def)
  qed
  have d36524: "doe div 36524 = c" by (simp add: c_def)
  have d146096: "doe div 146096 = 0" using assms(1,2) False by simp
  have est: "doe - doe div 1460 + doe div 36524 - doe div 146096 =
      365 * (100 * c + 4 * q) + (t - dl)"
    unfolding d1460 d36524 d146096 by (simp add: doe rq)
  define e where "e = (t - dl) div 365"
  have tdl: "0 \<le> t - dl" "t - dl \<le> 1459"
    using q t c by (auto simp add: dl_def)
  have e: "0 \<le> e" "e \<le> 3" "365 * e \<le> t - dl" "t - dl \<le> 365 * e + 364"
    using tdl unfolding e_def by arith+
  have yoe: "yoe = 100 * c + 4 * q + e"
    unfolding yoe_def est e_def by simp
  have y4: "yoe div 4 = 25 * c + q"
    using e(1,2) unfolding yoe by arith
  have y100: "yoe div 100 = c"
    using e(1,2) q unfolding yoe by arith
  have doy: "doe - (365 * yoe + yoe div 4 - yoe div 100) = t - 365 * e"
    unfolding y4 y100 by (simp add: yoe doe rq)
  have dl: "0 \<le> dl" "dl \<le> 1" by (simp_all add: dl_def)
  show ?thesis
    unfolding doy using e c q dl unfolding yoe by auto
qed

lemma day_of_civil_inverse:
  assumes "civil_of_day n = (y, m, d)"
  shows "day_of_civil y m d = n"
proof -
  define z where "z = n + 306"
  define era where "era = z div 146097"
  define doe where "doe = z mod 146097"
  define yoe where "yoe = (doe - doe div 1460 + doe div 36524 - doe div 146096) div 365"
  define doy where "doy = doe - (365 * yoe + yoe div 4 - yoe div 100)"
  define mp where "mp = (5 * doy + 2) div 153"
  have doe: "0 \<le> doe" "doe \<le> 146096" by (simp_all add: doe_def)
  from year_decode [OF doe]
  have yoe: "0 \<le> yoe" "yoe \<le> 399" and doy: "0 \<le> doy" "doy \<le> 365"
    by (simp_all add: yoe_def doy_def)
  have mp: "0 \<le> mp" "mp \<le> 11"
    using doy unfolding mp_def by arith+
  define m0 where "m0 = (if mp < 10 then mp + 3 else mp - 9)"
  have "civil_of_day n =
      (yoe + era * 400 + (if m0 \<le> 2 then 1 else 0), m0, doy - (153 * mp + 2) div 5 + 1)"
    unfolding civil_of_day_def Let_def m0_def mp_def doy_def yoe_def doe_def era_def z_def ..
  with assms have "(y, m, d) =
      (yoe + era * 400 + (if m0 \<le> 2 then 1 else 0), m0, doy - (153 * mp + 2) div 5 + 1)"
    by (simp only:)
  then have m0: "m = m0"
    and d: "d = doy - (153 * mp + 2) div 5 + 1"
    and y0: "y = yoe + era * 400 + (if m0 \<le> 2 then 1 else 0)"
    by blast+
  have m: "m = (if mp < 10 then mp + 3 else mp - 9)" by (simp only: m0 m0_def)
  have y: "y = yoe + era * 400 + (if m \<le> 2 then 1 else 0)" by (simp only: y0 m0)
  define y' where "y' = (if m \<le> 2 then y - 1 else y)"
  have y': "y' = 400 * era + yoe" by (simp add: y'_def y)
  have era': "y' div 400 = era" using y' yoe by (intro int_div_pos_eq [of _ _ _ yoe]) simp_all
  have yoe': "y' mod 400 = yoe" using y' yoe by (intro int_mod_pos_eq [of _ _ era]) simp_all
  have mp': "(if m > 2 then m - 3 else m + 9) = mp" using mp by (simp add: m)
  have "day_of_civil y m d = era * 146097 + doe - 306"
    unfolding day_of_civil_def Let_def y'_def [symmetric] era' yoe' mp'
    by (simp add: d doy_def)
  also have "\<dots> = z - 306" by (simp add: era_def doe_def)
  finally show ?thesis by (simp add: z_def)
qed

lemma civil_of_day_inj: "civil_of_day a = civil_of_day b \<Longrightarrow> a = b"
  by (metis day_of_civil_inverse prod_cases3)

text \<open>
  With zero years and zero months, \<^verbatim>\<open>AddDate\<close> moves the calendar day by the number of
  days: this is the only way the program calls it.
\<close>

lemma civil_of_day_month:
  assumes "civil_of_day n = (y, m, d)"
  shows "1 \<le> m \<and> m \<le> 12"
proof -
  define z where "z = n + 306"
  define era where "era = z div 146097"
  define doe where "doe = z mod 146097"
  define yoe where "yoe = (doe - doe div 1460 + doe div 36524 - doe div 146096) div 365"
  define doy where "doy = doe - (365 * yoe + yoe div 4 - yoe div 100)"
  define mp where "mp = (5 * doy + 2) div 153"
  define m0 where "m0 = (if mp < 10 then mp + 3 else mp - 9)"
  have doe: "0 \<le> doe" "doe \<le> 146096" by (simp_all add: doe_def)
  from year_decode [OF doe] have doy: "0 \<le> doy" "doy \<le> 365"
    by (simp_all add: yoe_def doy_def)
  have mp: "0 \<le> mp" "mp \<le> 11"
    using doy unfolding mp_def by arith+
  have "civil_of_day n =
      (yoe + era * 400 + (if m0 \<le> 2 then 1 else 0), m0, doy - (153 * mp + 2) div 5 + 1)"
    unfolding civil_of_day_def Let_def m0_def mp_def doy_def yoe_def doe_def era_def z_def ..
  with assms have "(y, m, d) =
      (yoe + era * 400 + (if m0 \<le> 2 then 1 else 0), m0, doy - (153 * mp + 2) div 5 + 1)"
    by (simp only:)
  then have "m = m0" by blast
  with mp show ?thesis by (simp add: m0_def)
qed

lemma day_of_civil_add: "day_of_civil y m (d + n) = day_of_civil y m d + n"
  by (simp add: day_of_civil_def Let_def)

lemma AddDate_days: "AddDate t 0 0 n = t\<lparr>abs_day := abs_day t + n\<rparr>"
proof -
  obtain y m d where c: "civil_of_day (abs_day t) = (y, m, d)"
    using prod_cases3 by blast
  then have ymd: "Year t = y" "Month t = m" "Day t = d"
    by (simp_all add: Year_def Month_def Day_def)
  from civil_of_day_month [OF c] have "(m - 1) div 12 = 0" "(m - 1) mod 12 + 1 = m"
    by simp_all
  then have "AddDate t 0 0 n = t\<lparr>abs_day := day_of_civil y m (d + n)\<rparr>"
    by (simp add: AddDate_def ymd)
  then show ?thesis
    using day_of_civil_inverse [OF c] by (simp add: day_of_civil_add)
qed


lemma url_of_inj: "url_of t = url_of t' \<Longrightarrow> abs_day t = abs_day t'"
proof -
  assume "url_of t = url_of t'"
  then have "civil_of_day (abs_day t) = civil_of_day (abs_day t')"
    by (simp add: url_of_def Year_def Month_def Day_def prod_eq_iff)
  then show ?thesis by (rule civil_of_day_inj)
qed

subsection \<open>One step of the scan, and runs of it\<close>

declare findPreviousBusinessDay_loop.simps [simp del]

lemma checkHoliday_eq:
  "checkHoliday api date net =
     ((case holiday_answer api date of Inl e \<Rightarrow> (False, [], Some e)
       | Inr h \<Rightarrow> (h, (case api (url_of date) of Reply c (Some r) \<Rightarrow> Name r | _ \<Rightarrow> []), None)),
      net @ [url_of date])"
  by (simp add: checkHoliday_def holiday_answer_def url_of_def Let_def
      split: http_reply.splits option.splits)

lemma isBusinessDay_eq:
  "isBusinessDay api date net =
     (if isWeekend date then ((False, None), net)
      else (case holiday_answer api date of
              Inl e \<Rightarrow> ((False, Some e), net @ [url_of date])
            | Inr h \<Rightarrow> ((\<not> h, None), net @ [url_of date])))"
  by (simp add: isBusinessDay_def checkHoliday_eq split: sum.splits)

lemma holiday_answer_failed:
  "(\<exists>e. holiday_answer api date = Inl e) \<longleftrightarrow> failed_reply (api (url_of date))"
  by (auto simp add: holiday_answer_def checkHoliday_def url_of_def failed_reply_def Let_def
      split: http_reply.splits option.splits)

lemma loop_step:
  "findPreviousBusinessDay_loop api i current net =
     (if i < 30 then
        (if isWeekend current
         then findPreviousBusinessDay_loop api (Suc i) (AddDate current 0 0 (- 1)) net
         else (case holiday_answer api current of
                 Inl e \<Rightarrow> ((zero_time, Some (Business_day_error e)), net @ [url_of current])
               | Inr h \<Rightarrow>
                   if h then findPreviousBusinessDay_loop api (Suc i) (AddDate current 0 0 (- 1))
                               (net @ [url_of current])
                   else ((current, None), net @ [url_of current])))
      else ((zero_time, Some Not_found), net))"
  by (subst findPreviousBusinessDay_loop.simps)
     (simp add: isBusinessDay_eq maxDays_def split: sum.splits)

lemma days_before_Suc: "AddDate (days_before from k) 0 0 (- 1) = days_before from (Suc k)"
  by (simp add: days_before_def AddDate_days)

lemma days_before_1: "AddDate from 0 0 (- 1) = days_before from 1"
  by (simp add: days_before_def AddDate_days)

lemma probes_0: "probes from 0 = []"
  by (simp add: probes_def candidates_def)

lemma probes_Suc:
  "probes from (Suc n) =
     probes from n @ (if isWeekend (days_before from (Suc n)) then [] else [url_of (days_before from (Suc n))])"
  by (simp add: probes_def candidates_def)

lemma find_skip:
  assumes "\<forall>j. 1 \<le> j \<and> j \<le> n \<longrightarrow> non_business_day api (days_before from j)" and "n \<le> 30"
  shows "findPreviousBusinessDay api from net =
           findPreviousBusinessDay_loop api n (days_before from (Suc n)) (net @ probes from n)"
  using assms
proof (induction n)
  case 0
  show ?case by (simp add: findPreviousBusinessDay_def days_before_1 probes_0)
next
  case (Suc n)
  from Suc.prems have rej: "non_business_day api (days_before from (Suc n))" and lt: "n < 30"
    by auto
  from Suc have IH: "findPreviousBusinessDay api from net =
           findPreviousBusinessDay_loop api n (days_before from (Suc n)) (net @ probes from n)"
    by simp
  show ?case
    using rej lt
    by (subst IH, subst loop_step) (auto simp add: non_business_day_def days_before_Suc probes_Suc)
qed

lemma find_found:
  assumes "1 \<le> k" "k \<le> 30"
    and "\<forall>j. 1 \<le> j \<and> j < k \<longrightarrow> non_business_day api (days_before from j)"
    and "business_day api (days_before from k)"
  shows "findPreviousBusinessDay api from net = ((days_before from k, None), net @ probes from k)"
proof -
  obtain n where k: "k = Suc n" using assms(1) by (cases k) auto
  have "findPreviousBusinessDay api from net =
           findPreviousBusinessDay_loop api n (days_before from (Suc n)) (net @ probes from n)"
    using assms(2,3) k by (intro find_skip) auto
  then show ?thesis
    using assms(2,4) k by (subst (asm) loop_step) (simp add: business_day_def probes_Suc)
qed

lemma find_failed:
  assumes "1 \<le> k" "k \<le> 30"
    and "\<forall>j. 1 \<le> j \<and> j < k \<longrightarrow> non_business_day api (days_before from j)"
    and "\<not> isWeekend (days_before from k)" "holiday_answer api (days_before from k) = Inl e"
  shows "findPreviousBusinessDay api from net =
           ((zero_time, Some (Business_day_error e)), net @ probes from k)"
proof -
  obtain n where k: "k = Suc n" using assms(1) by (cases k) auto
  have "findPreviousBusinessDay api from net =
           findPreviousBusinessDay_loop api n (days_before from (Suc n)) (net @ probes from n)"
    using assms(2,3) k by (intro find_skip) auto
  then show ?thesis
    using assms(2,4,5) k by (subst (asm) loop_step) (simp add: probes_Suc)
qed

lemma find_exhausted:
  assumes "\<forall>j. 1 \<le> j \<and> j \<le> 30 \<longrightarrow> non_business_day api (days_before from j)"
  shows "findPreviousBusinessDay api from net = ((zero_time, Some Not_found), net @ probes from 30)"
proof -
  have "findPreviousBusinessDay api from net =
           findPreviousBusinessDay_loop api 30 (days_before from (Suc 30)) (net @ probes from 30)"
    using assms by (intro find_skip) auto
  then show ?thesis by (subst (asm) loop_step) simp
qed

lemma candidate_cases:
  "non_business_day api date \<or> business_day api date
     \<or> (\<not> isWeekend date \<and> (\<exists>e. holiday_answer api date = Inl e))"
  by (cases "holiday_answer api date") (auto simp add: non_business_day_def business_day_def)

lemma find_cases:
  obtains (found) k where "1 \<le> k" "k \<le> 30"
      "\<forall>j. 1 \<le> j \<and> j < k \<longrightarrow> non_business_day api (days_before from j)"
      "business_day api (days_before from k)"
      "findPreviousBusinessDay api from net = ((days_before from k, None), net @ probes from k)"
  | (failed) k e where "1 \<le> k" "k \<le> 30"
      "\<forall>j. 1 \<le> j \<and> j < k \<longrightarrow> non_business_day api (days_before from j)"
      "\<not> isWeekend (days_before from k)" "holiday_answer api (days_before from k) = Inl e"
      "findPreviousBusinessDay api from net =
         ((zero_time, Some (Business_day_error e)), net @ probes from k)"
  | (exhausted) "\<forall>j. 1 \<le> j \<and> j \<le> 30 \<longrightarrow> non_business_day api (days_before from j)"
      "findPreviousBusinessDay api from net = ((zero_time, Some Not_found), net @ probes from 30)"
proof (cases "\<forall>j. 1 \<le> j \<and> j \<le> 30 \<longrightarrow> non_business_day api (days_before from j)")
  case True
  then show ?thesis using find_exhausted exhausted by blast
next
  case False
  then have "\<exists>k. (1 \<le> k \<and> k \<le> 30 \<and> \<not> non_business_day api (days_before from k))" by blast
  then obtain k where k: "1 \<le> k" "k \<le> 30" "\<not> non_business_day api (days_before from k)"
    and least: "\<forall>j<k. \<not> (1 \<le> j \<and> j \<le> 30 \<and> \<not> non_business_day api (days_before from j))"
    using exists_least_iff [of "\<lambda>k. 1 \<le> k \<and> k \<le> 30 \<and> \<not> non_business_day api (days_before from k)"]
    by blast
  from least k(2) have before: "\<forall>j. 1 \<le> j \<and> j < k \<longrightarrow> non_business_day api (days_before from j)"
    by auto
  from candidate_cases [of api "days_before from k"] k(3)
  consider "business_day api (days_before from k)"
    | e where "\<not> isWeekend (days_before from k)" "holiday_answer api (days_before from k) = Inl e"
    by blast
  then show ?thesis
  proof cases
    case 1
    then show ?thesis using found find_found k before by blast
  next
    case 2
    then show ?thesis using failed find_failed k before by blast
  qed
qed

lemma abs_day_days_before: "abs_day (days_before from k) = abs_day from - int k"
  by (simp add: days_before_def AddDate_days)

lemma isWeekend_cong: "abs_day t = abs_day t' \<Longrightarrow> isWeekend t = isWeekend t'"
  by (simp add: isWeekend_def Weekday_def)

lemma url_of_cong: "abs_day t = abs_day t' \<Longrightarrow> url_of t = url_of t'"
  by (simp add: url_of_def Year_def Month_def Day_def)

lemma holiday_answer_url:
  "holiday_answer api date =
     (case api (url_of date) of
        Transport_failure \<Rightarrow> Inl API_call_error
      | Reply code body \<Rightarrow>
          if code \<noteq> 200 then Inl (API_status_error code)
          else (case body of None \<Rightarrow> Inl JSON_parse_error | Some h \<Rightarrow> Inr (Holiday h)))"
  by (simp add: holiday_answer_def checkHoliday_def url_of_def Let_def
      split: http_reply.splits option.splits)

lemma holiday_answer_cong: "abs_day t = abs_day t' \<Longrightarrow> holiday_answer api t = holiday_answer api t'"
  by (simp add: holiday_answer_url url_of_cong [of t t'])

lemma non_business_day_cong: "abs_day t = abs_day t' \<Longrightarrow> non_business_day api t = non_business_day api t'"
  by (simp add: non_business_day_def isWeekend_cong [of t t'] holiday_answer_cong [of t t'])

lemma erased_Holiday: "h\<lparr>Name := []\<rparr> = h'\<lparr>Name := []\<rparr> \<Longrightarrow> Holiday h = Holiday h'"
  by (cases h; cases h') simp

lemma holiday_answer_erase:
  "erase_name (api2 (url_of t)) = erase_name (api1 (url_of t)) \<Longrightarrow>
   holiday_answer api2 t = holiday_answer api1 t"
  by (cases "api1 (url_of t)"; cases "api2 (url_of t)")
     (auto simp add: holiday_answer_url erase_name_def split: option.splits dest: erased_Holiday)

lemma probes_set:
  "q \<in> set (probes from n) \<longleftrightarrow>
     (\<exists>j. 1 \<le> j \<and> j \<le> n \<and> \<not> isWeekend (days_before from j) \<and> q = url_of (days_before from j))"
  by (induction n) (auto simp add: probes_0 probes_Suc le_Suc_eq)

lemma non_business_day_not_failed:
  "non_business_day api t \<Longrightarrow> \<not> isWeekend t \<Longrightarrow> \<not> failed_reply (api (url_of t))"
  using holiday_answer_failed [of api t] by (auto simp add: non_business_day_def)

lemma business_not_failed: "business_day api t \<Longrightarrow> \<not> failed_reply (api (url_of t))"
  using holiday_answer_failed [of api t] by (auto simp add: business_day_def)

lemma probes_not_failed:
  assumes "\<forall>j. 1 \<le> j \<and> j \<le> n \<longrightarrow> non_business_day api (days_before from j)"
    and "q \<in> set (probes from n)"
  shows "\<not> failed_reply (api q)"
  using assms non_business_day_not_failed by (auto simp add: probes_set)

lemma probes_before_not_failed:
  assumes "1 \<le> k" and "\<forall>j. 1 \<le> j \<and> j < k \<longrightarrow> non_business_day api (days_before from j)"
    and "q \<in> set (probes from (k - 1))"
  shows "\<not> failed_reply (api q)"
proof -
  have "\<forall>j. 1 \<le> j \<and> j \<le> k - 1 \<longrightarrow> non_business_day api (days_before from j)"
  proof (intro allI impI)
    fix j assume "1 \<le> j \<and> j \<le> k - 1"
    with assms(1) have "1 \<le> j \<and> j < k" by arith
    with assms(2) show "non_business_day api (days_before from j)" by blast
  qed
  then show ?thesis using assms(3) by (rule probes_not_failed)
qed

lemma probes_last:
  "1 \<le> k \<Longrightarrow> \<not> isWeekend (days_before from k) \<Longrightarrow>
   probes from k = probes from (k - 1) @ [url_of (days_before from k)]"
  by (cases k) (simp_all add: probes_Suc)

lemma probes_mem:
  "1 \<le> j \<Longrightarrow> j \<le> n \<Longrightarrow> \<not> isWeekend (days_before from j) \<Longrightarrow>
   url_of (days_before from j) \<in> set (probes from n)"
  by (auto simp add: probes_set)

text \<open>
  No URL is requested twice in a run, and the URL of a day that is not among those examined
  is not requested at all.
\<close>

lemma url_of_days_before_inj:
  "url_of (days_before from j) = url_of (days_before from k) \<Longrightarrow> j = k"
  using url_of_inj [of "days_before from j" "days_before from k"]
  by (simp add: abs_day_days_before)

lemma probes_distinct: "distinct (probes from n)"
proof (induction n)
  case 0
  show ?case by (simp add: probes_0)
next
  case (Suc n)
  have "url_of (days_before from (Suc n)) \<notin> set (probes from n)"
  proof
    assume "url_of (days_before from (Suc n)) \<in> set (probes from n)"
    then obtain j where "j \<le> n" "url_of (days_before from (Suc n)) = url_of (days_before from j)"
      by (auto simp add: probes_set)
    then show False using url_of_days_before_inj [of "from" "Suc n" j] by simp
  qed
  with Suc show ?case by (simp add: probes_Suc)
qed

lemma probes_beyond: "n < k \<Longrightarrow> url_of (days_before from k) \<notin> set (probes from n)"
proof
  assume "n < k" and "url_of (days_before from k) \<in> set (probes from n)"
  then obtain j where "j \<le> n" "url_of (days_before from k) = url_of (days_before from j)"
    by (auto simp add: probes_set)
  with \<open>n < k\<close> show False using url_of_days_before_inj [of "from" k j] by simp
qed

lemma requests_distinct:
  assumes "findPreviousBusinessDay api from net = (r, net @ qs)"
  shows "distinct qs"
  using assms probes_distinct [of "from"]
  by (cases rule: find_cases [of api "from" net]) auto

lemma non_business_day_agree:
  assumes "non_business_day api1 t"
    and "\<not> isWeekend t \<Longrightarrow> holiday_answer api2 t = holiday_answer api1 t"
  shows "non_business_day api2 t"
proof (cases "isWeekend t")
  case True
  then show ?thesis by (simp add: non_business_day_def)
next
  case False
  with assms show ?thesis by (simp add: non_business_day_def)
qed

lemma find_agree:
  assumes run: "findPreviousBusinessDay api1 from net = (r, net @ qs)"
    and agree: "\<forall>j. 1 \<le> j \<and> j \<le> 30 \<and> url_of (days_before from j) \<in> set qs \<longrightarrow>
       holiday_answer api2 (days_before from j) = holiday_answer api1 (days_before from j)"
  shows "findPreviousBusinessDay api2 from net = (r, net @ qs)"
proof (cases rule: find_cases [of api1 "from" net])
  case (found k)
  with run have qs: "qs = probes from k" and r: "r = (days_before from k, None)" by simp_all
  have same: "holiday_answer api2 (days_before from j) = holiday_answer api1 (days_before from j)"
    if "1 \<le> j" "j \<le> k" "\<not> isWeekend (days_before from j)" for j
    using that found(2) agree probes_mem [of j k "from"] by (auto simp add: qs)
  have "\<forall>j. 1 \<le> j \<and> j < k \<longrightarrow> non_business_day api2 (days_before from j)"
    using found(3) same by (auto intro: non_business_day_agree)
  moreover have "business_day api2 (days_before from k)"
    using found(1,4) same [of k] by (auto simp add: business_day_def)
  ultimately show ?thesis
    using find_found [of k api2 "from" net] found(1,2) by (simp add: qs r)
next
  case (failed k e)
  with run have qs: "qs = probes from k" and r: "r = (zero_time, Some (Business_day_error e))"
    by simp_all
  have same: "holiday_answer api2 (days_before from j) = holiday_answer api1 (days_before from j)"
    if "1 \<le> j" "j \<le> k" "\<not> isWeekend (days_before from j)" for j
    using that failed(2) agree probes_mem [of j k "from"] by (auto simp add: qs)
  have "\<forall>j. 1 \<le> j \<and> j < k \<longrightarrow> non_business_day api2 (days_before from j)"
    using failed(3) same by (auto intro: non_business_day_agree)
  moreover have "holiday_answer api2 (days_before from k) = Inl e"
    using failed(1,4,5) same [of k] by simp
  ultimately show ?thesis
    using find_failed [of k api2 "from" e net] failed(1,2,4) by (simp add: qs r)
next
  case exhausted
  with run have qs: "qs = probes from 30" and r: "r = (zero_time, Some Not_found)" by simp_all
  have same: "holiday_answer api2 (days_before from j) = holiday_answer api1 (days_before from j)"
    if "1 \<le> j" "j \<le> 30" "\<not> isWeekend (days_before from j)" for j
    using that agree probes_mem [of j 30 "from"] by (auto simp add: qs)
  have "\<forall>j. 1 \<le> j \<and> j \<le> 30 \<longrightarrow> non_business_day api2 (days_before from j)"
    using exhausted(1) same by (auto intro: non_business_day_agree)
  then show ?thesis
    using find_exhausted [of api2 "from" net] by (simp add: qs r)
qed

lemma non_business_not_business: "non_business_day api t \<Longrightarrow> \<not> business_day api t"
  by (auto simp add: non_business_day_def business_day_def)

lemma probes_unfold:
  "probes from n = map url_of (filter (\<lambda>c. \<not> isWeekend c) (map (days_before from) [1..<Suc n]))"
  by (simp add: probes_def candidates_def)

lemma weekday_of_num_simps:
  "weekday_of_num 0 = Sunday" "weekday_of_num 5 = Friday" "weekday_of_num 6 = Saturday"
  "weekday_of_num n = Monday \<longleftrightarrow> n = 1"
  by (simp_all add: weekday_of_num_def)

lemma before_monday:
  assumes "Weekday from = Monday"
  shows "Weekday (days_before from 1) = Sunday"
    and "Weekday (days_before from 2) = Saturday"
    and "Weekday (days_before from 3) = Friday"
proof -
  from assms have m: "(abs_day from + 1) mod 7 = 1"
    by (simp add: Weekday_def weekday_of_num_simps)
  then have "abs_day from mod 7 = 0" "(abs_day from - 1) mod 7 = 6" "(abs_day from - 2) mod 7 = 5"
    by presburger+
  then show "Weekday (days_before from 1) = Sunday"
    and "Weekday (days_before from 2) = Saturday"
    and "Weekday (days_before from 3) = Friday"
    by (simp_all add: Weekday_def abs_day_days_before weekday_of_num_simps)
qed

text \<open>The requests of a run, split at a weekday among the days examined.\<close>

lemma probes_split:
  assumes "1 \<le> k" and "k \<le> n" and "\<not> isWeekend (days_before from k)"
  shows "probes from n =
           map url_of (filter (\<lambda>c. \<not> isWeekend c) (map (days_before from) [1..<k]))
           @ [url_of (days_before from k)]
           @ map url_of (filter (\<lambda>c. \<not> isWeekend c) (map (days_before from) [Suc k..<Suc n]))"
proof -
  have "[1..<Suc n] = [1..<k] @ [k] @ [Suc k..<Suc n]"
  proof -
    have "[1..<Suc n] = [1..<Suc k] @ [Suc k..<Suc n]"
      using assms(1,2) upt_add_eq_append [of 1 "Suc k" "n - k"] by simp
    moreover have "[1..<Suc k] = [1..<k] @ [k]" using assms(1) by simp
    ultimately show ?thesis by simp
  qed
  then show ?thesis using assms(3) by (simp add: probes_unfold)
qed

subsection \<open>Two concrete runs\<close>

lemma golden_week_run:
  "findPreviousBusinessDay golden_week (Date 2025 5 7) [] =
     ((Date 2025 5 2, None), [] @ [(2025, 5, 6), (2025, 5, 5), (2025, 5, 2)])"
  by code_simp

lemma outage_run:
  "findPreviousBusinessDay outage (Date 2025 5 7) [] =
     ((zero_time, Some (Business_day_error (API_status_error 503))),
      [] @ [(2025, 5, 6), (2025, 5, 5)])"
  by code_simp

section \<open>The claims of the specification\<close>

text \<open>
  \<^bold>\<open>C1.\<close> When \<^verbatim>\<open>findPreviousBusinessDay\<close> returns a date \<open>d\<close> and no error, \<open>d\<close>
  lies strictly before the base date (an earlier calendar day, at the same wall clock and
  location), \<open>d\<close> is not a Saturday or Sunday and the service answered that \<open>d\<close> is no
  holiday, and every calendar day strictly between \<open>d\<close> and the base date is a Saturday,
  a Sunday or a day that the service reports as a holiday: \<open>d\<close> is the most recent
  business day before the base date.
\<close>

theorem previous_business_day_is_most_recent:
  assumes "findPreviousBusinessDay api from net = ((d, None), net')"
  shows "abs_day d < abs_day from \<and> wall_clock d = wall_clock from \<and> loc d = loc from
       \<and> \<not> isWeekend d \<and> holiday_answer api d = Inr False
       \<and> (\<forall>t. abs_day d < abs_day t \<and> abs_day t < abs_day from \<longrightarrow>
              isWeekend t \<or> holiday_answer api t = Inr True)"
proof (cases rule: find_cases [of api "from" net])
  case (found k)
  with assms have d: "d = days_before from k" by simp
  have between: "isWeekend t \<or> holiday_answer api t = Inr True"
    if "abs_day d < abs_day t" "abs_day t < abs_day from" for t
  proof -
    define j where "j = nat (abs_day from - abs_day t)"
    have j: "1 \<le> j" "j < k" "abs_day t = abs_day (days_before from j)"
      using that d by (auto simp add: j_def abs_day_days_before)
    with found(3) have "non_business_day api (days_before from j)" by simp
    then have "non_business_day api t" using non_business_day_cong [OF j(3)] by simp
    then show ?thesis by (simp add: non_business_day_def)
  qed
  have "abs_day d < abs_day from \<and> wall_clock d = wall_clock from \<and> loc d = loc from"
    using found(1) by (simp add: d days_before_def AddDate_days)
  moreover have "\<not> isWeekend d \<and> holiday_answer api d = Inr False"
    using found(4) by (simp add: d business_day_def)
  ultimately show ?thesis using between by blast
next
  case (failed k e)
  with assms show ?thesis by simp
next
  case exhausted
  with assms show ?thesis by simp
qed

theorem previous_business_day_is_most_recent_witness:
  "findPreviousBusinessDay golden_week (Date 2025 5 7) [] =
     ((Date 2025 5 2, None), [(2025, 5, 6), (2025, 5, 5), (2025, 5, 2)])
   \<and> abs_day (Date 2025 5 2) < abs_day (Date 2025 5 7)
   \<and> \<not> isWeekend (Date 2025 5 2) \<and> holiday_answer golden_week (Date 2025 5 2) = Inr False
   \<and> (isWeekend (Date 2025 5 5) \<or> holiday_answer golden_week (Date 2025 5 5) = Inr True)
   \<and> (isWeekend (Date 2025 5 4) \<or> holiday_answer golden_week (Date 2025 5 4) = Inr True)"
proof -
  have run: "findPreviousBusinessDay golden_week (Date 2025 5 7) [] =
     ((Date 2025 5 2, None), [(2025, 5, 6), (2025, 5, 5), (2025, 5, 2)])"
    using golden_week_run by simp
  have between: "abs_day (Date 2025 5 2) < abs_day (Date 2025 5 5)"
    "abs_day (Date 2025 5 5) < abs_day (Date 2025 5 7)"
    "abs_day (Date 2025 5 2) < abs_day (Date 2025 5 4)"
    "abs_day (Date 2025 5 4) < abs_day (Date 2025 5 7)"
    by code_simp+
  from previous_business_day_is_most_recent [OF run] run between show ?thesis by blast
qed

text \<open>
  \<^bold>\<open>C2.\<close> The contract of the scan. A run examines the first \<open>n\<close> days before the
  starting date, for some \<open>n\<close> from 1 to 30, in decreasing order one day at a time,
  beginning with the day immediately before the starting date: the requests it adds are those
  of the candidates among them that are no weekend days, in that order, so that a weekend
  candidate is not queried and every other candidate is. The candidates before the \<open>n\<close>-th
  are all weekend days or reported holidays. If the \<open>n\<close>-th is neither, it is returned at
  once when the service answers that it is no holiday, and the error is returned when the
  call fails; if the \<open>n\<close>-th is rejected as well, then \<open>n\<close> is 30 and the result is
  "not found".
\<close>

theorem scan_follows_contract:
  assumes "findPreviousBusinessDay api from net = (r, net')"
  shows "\<exists>n. 1 \<le> n \<and> n \<le> 30
      \<and> net' = net @ map url_of (filter (\<lambda>c. \<not> isWeekend c) (map (days_before from) [1..<Suc n]))
      \<and> (\<forall>j. 1 \<le> j \<and> j < n \<longrightarrow>
            isWeekend (days_before from j) \<or> holiday_answer api (days_before from j) = Inr True)
      \<and> (if isWeekend (days_before from n) \<or> holiday_answer api (days_before from n) = Inr True
         then n = 30 \<and> r = (zero_time, Some Not_found)
         else (case holiday_answer api (days_before from n) of
                 Inr h \<Rightarrow> r = (days_before from n, None)
               | Inl e \<Rightarrow> r = (zero_time, Some (Business_day_error e))))"
proof (cases rule: find_cases [of api "from" net])
  case (found k)
  with assms show ?thesis
    by (intro exI [of _ k]) (auto simp add: probes_unfold business_day_def non_business_day_def)
next
  case (failed k e)
  with assms show ?thesis
    by (intro exI [of _ k]) (auto simp add: probes_unfold non_business_day_def)
next
  case exhausted
  with assms show ?thesis
    by (intro exI [of _ 30]) (auto simp add: probes_unfold non_business_day_def)
qed

theorem scan_follows_contract_witness:
  "findPreviousBusinessDay golden_week (Date 2025 5 8) [] =
     ((Date 2025 5 7, None), [(2025, 5, 7)])
   \<and> (\<exists>n. 1 \<le> n \<and> n \<le> 30
        \<and> [(2025, 5, 7)] = [] @ map url_of (filter (\<lambda>c. \<not> isWeekend c)
                                   (map (days_before (Date 2025 5 8)) [1..<Suc n])))"
proof -
  have run: "findPreviousBusinessDay golden_week (Date 2025 5 8) [] =
     ((Date 2025 5 7, None), [(2025, 5, 7)])"
    by code_simp
  from scan_follows_contract [OF run] run show ?thesis by blast
qed

text \<open>
  \<^bold>\<open>C3.\<close> The scan examines at most 30 candidates, the first to the 30th day before
  the base date: its requests are those of the first \<open>n\<close> preceding days for some
  \<open>n \<le> 30\<close>, the 31st preceding day is never requested, and a service that replies alike
  for these 30 days gives the same result and the same requests, whatever it replies for the
  31st preceding day or any other. When no call of the run fails, the result is "not found"
  if and only if none of the 30 preceding days is a business day.
\<close>

theorem scan_bounded_by_thirty_days:
  assumes "findPreviousBusinessDay api from net = ((d, err), net @ qs)"
  shows "(\<exists>n. n \<le> 30 \<and>
            qs = map url_of (filter (\<lambda>c. \<not> isWeekend c) (map (days_before from) [1..<Suc n])))
       \<and> url_of (days_before from 31) \<notin> set qs
       \<and> (\<forall>api'. (\<forall>k. 1 \<le> k \<and> k \<le> 30 \<longrightarrow>
                    api' (url_of (days_before from k)) = api (url_of (days_before from k))) \<longrightarrow>
                 findPreviousBusinessDay api' from net = ((d, err), net @ qs))
       \<and> ((\<forall>q\<in>set qs. \<not> failed_reply (api q)) \<longrightarrow>
            (err = Some Not_found \<longleftrightarrow>
               (\<forall>k. 1 \<le> k \<and> k \<le> 30 \<longrightarrow> \<not> business_day api (days_before from k))))"
proof -
  have indep: "findPreviousBusinessDay api' from net = ((d, err), net @ qs)"
    if "\<forall>k. 1 \<le> k \<and> k \<le> 30 \<longrightarrow>
          api' (url_of (days_before from k)) = api (url_of (days_before from k))" for api'
    using assms
  proof (rule find_agree)
    show "\<forall>j. 1 \<le> j \<and> j \<le> 30 \<and> url_of (days_before from j) \<in> set qs \<longrightarrow>
       holiday_answer api' (days_before from j) = holiday_answer api (days_before from j)"
      using that by (simp add: holiday_answer_url)
  qed
  have bound: "\<exists>n. n \<le> 30 \<and> qs = probes from n"
    using assms by (cases rule: find_cases [of api "from" net]) auto
  have iff: "err = Some Not_found \<longleftrightarrow>
               (\<forall>k. 1 \<le> k \<and> k \<le> 30 \<longrightarrow> \<not> business_day api (days_before from k))"
    if ok: "\<forall>q\<in>set qs. \<not> failed_reply (api q)"
  proof (cases rule: find_cases [of api "from" net])
    case (found k)
    with assms have "err = None" by simp
    with found(1,2,4) show ?thesis by auto
  next
    case (failed k e)
    with assms have qs: "qs = probes from k" by simp
    have "url_of (days_before from k) \<in> set qs"
      using failed(1,4) by (simp add: qs probes_mem)
    moreover have "failed_reply (api (url_of (days_before from k)))"
      using failed(5) holiday_answer_failed [of api "days_before from k"] by blast
    ultimately show ?thesis using ok by blast
  next
    case exhausted
    with assms have "err = Some Not_found" by simp
    with exhausted(1) non_business_not_business show ?thesis by blast
  qed
  from bound obtain n where "n \<le> 30" "qs = probes from n" by blast
  then have never: "url_of (days_before from 31) \<notin> set qs"
    using probes_beyond [of n 31 "from"] by simp
  from bound [unfolded probes_unfold] never indep iff show ?thesis by blast
qed

theorem scan_bounded_by_thirty_days_witness:
  "findPreviousBusinessDay always_holiday (Date 2025 5 7) [] =
     ((zero_time, Some Not_found),
      [(2025, 5, 6), (2025, 5, 5), (2025, 5, 2), (2025, 5, 1), (2025, 4, 30), (2025, 4, 29),
       (2025, 4, 28), (2025, 4, 25), (2025, 4, 24), (2025, 4, 23), (2025, 4, 22), (2025, 4, 21),
       (2025, 4, 18), (2025, 4, 17), (2025, 4, 16), (2025, 4, 15), (2025, 4, 14), (2025, 4, 11),
       (2025, 4, 10), (2025, 4, 9), (2025, 4, 8), (2025, 4, 7)])
   \<and> \<not> business_day always_holiday (days_before (Date 2025 5 7) 1)
   \<and> \<not> business_day always_holiday (days_before (Date 2025 5 7) 30)"
proof -
  have run: "findPreviousBusinessDay always_holiday (Date 2025 5 7) [] =
     ((zero_time, Some Not_found),
      [] @ [(2025, 5, 6), (2025, 5, 5), (2025, 5, 2), (2025, 5, 1), (2025, 4, 30), (2025, 4, 29),
       (2025, 4, 28), (2025, 4, 25), (2025, 4, 24), (2025, 4, 23), (2025, 4, 22), (2025, 4, 21),
       (2025, 4, 18), (2025, 4, 17), (2025, 4, 16), (2025, 4, 15), (2025, 4, 14), (2025, 4, 11),
       (2025, 4, 10), (2025, 4, 9), (2025, 4, 8), (2025, 4, 7)])"
    by code_simp
  have ok: "\<not> failed_reply (always_holiday q)" for q
    by (simp add: always_holiday_def failed_reply_def)
  from scan_bounded_by_thirty_days [OF run] ok
  have "\<forall>k. 1 \<le> k \<and> k \<le> 30 \<longrightarrow> \<not> business_day always_holiday (days_before (Date 2025 5 7) k)"
    by blast
  then have "\<not> business_day always_holiday (days_before (Date 2025 5 7) 1)"
    and "\<not> business_day always_holiday (days_before (Date 2025 5 7) 30)"
    by simp_all
  with run show ?thesis by simp
qed

text \<open>
  \<^bold>\<open>C4.\<close> If a call that the scan makes fails, it is the last call: the request at
  position \<open>i\<close> of the run being a failing one, no request follows it, it is the request
  for one of the 30 preceding days, and \<^verbatim>\<open>findPreviousBusinessDay\<close> returns the error of
  that call, wrapped, with the zero time.
\<close>

theorem oracle_failure_stops_scan:
  assumes "findPreviousBusinessDay api from net = (r, net @ qs)"
    and "i < length qs" and "failed_reply (api (qs ! i))"
  shows "Suc i = length qs \<and>
         (\<exists>k e. 1 \<le> k \<and> k \<le> 30 \<and> qs ! i = url_of (days_before from k)
            \<and> holiday_answer api (days_before from k) = Inl e
            \<and> r = (zero_time, Some (Business_day_error e)))"
proof (cases rule: find_cases [of api "from" net])
  case (found k)
  with assms(1) have qs: "qs = probes from (k - 1) @ [url_of (days_before from k)]"
    by (simp add: probes_last business_day_def)
  have early: "\<not> failed_reply (api q)" if "q \<in> set (probes from (k - 1))" for q
    using found(1,3) that by (rule probes_before_not_failed)
  have final: "\<not> failed_reply (api (url_of (days_before from k)))"
    using found(4) by (rule business_not_failed)
  have "\<not> failed_reply (api q)" if "q \<in> set qs" for q
  proof -
    from that have "q = url_of (days_before from k) \<or> q \<in> set (probes from (k - 1))"
      by (simp add: qs)
    then show ?thesis using early final by blast
  qed
  with assms(2,3) show ?thesis using nth_mem by blast
next
  case (failed k e)
  with assms(1) have qs: "qs = probes from (k - 1) @ [url_of (days_before from k)]"
    and r: "r = (zero_time, Some (Business_day_error e))"
    by (simp_all add: probes_last)
  have early: "\<not> failed_reply (api q)" if "q \<in> set (probes from (k - 1))" for q
    using failed(1,3) that by (rule probes_before_not_failed)
  have "\<not> i < length (probes from (k - 1))"
  proof
    assume lt: "i < length (probes from (k - 1))"
    then have "qs ! i \<in> set (probes from (k - 1))" by (simp add: qs nth_append)
    with early assms(3) show False by blast
  qed
  with assms(2) have i: "i = length (probes from (k - 1))" by (simp add: qs)
  then have "qs ! i = url_of (days_before from k)" by (simp add: qs)
  with i failed(1,2,5) r show ?thesis by (auto simp add: qs)
next
  case exhausted
  with assms(1) have "qs = probes from 30" by simp
  with exhausted(1) assms(2,3) probes_not_failed [of 30 api "from" "qs ! i"] show ?thesis
    by auto
qed

theorem oracle_failure_stops_scan_witness:
  "findPreviousBusinessDay outage (Date 2025 5 7) [] =
     ((zero_time, Some (Business_day_error (API_status_error 503))), [(2025, 5, 6), (2025, 5, 5)])
   \<and> failed_reply (outage ([(2025, 5, 6), (2025, 5, 5)] ! 1))
   \<and> Suc 1 = length [(2025, 5, 6), (2025, 5, 5) :: request]
   \<and> (\<exists>k e. 1 \<le> k \<and> k \<le> 30
         \<and> [(2025, 5, 6), (2025, 5, 5)] ! 1 = url_of (days_before (Date 2025 5 7) k)
         \<and> holiday_answer outage (days_before (Date 2025 5 7) k) = Inl e
         \<and> (zero_time, Some (Business_day_error (API_status_error 503))) =
             (zero_time, Some (Business_day_error e)))"
proof -
  have i: "1 < length [(2025, 5, 6), (2025, 5, 5) :: request]" by simp
  have f: "failed_reply (outage ([(2025, 5, 6), (2025, 5, 5)] ! 1))" by code_simp
  from oracle_failure_stops_scan [OF outage_run i f] outage_run f show ?thesis by simp
qed

text \<open>
  \<^bold>\<open>C5.\<close> With a service that reports no day as a holiday, the scan from a Monday
  returns the day three days earlier, a Friday, after passing over the Sunday and the Saturday
  in between; the Friday is the only day it asks the service about.
\<close>

theorem monday_yields_previous_friday:
  assumes "Weekday from = Monday" and "\<forall>t. holiday_answer api t = Inr False"
  shows "findPreviousBusinessDay api from net =
           ((AddDate from 0 0 (- 3), None), net @ [url_of (AddDate from 0 0 (- 3))])
       \<and> Weekday (AddDate from 0 0 (- 1)) = Sunday
       \<and> Weekday (AddDate from 0 0 (- 2)) = Saturday
       \<and> Weekday (AddDate from 0 0 (- 3)) = Friday"
proof -
  note wd = before_monday [OF assms(1)]
  have we: "isWeekend (days_before from 1)" "isWeekend (days_before from 2)"
    "\<not> isWeekend (days_before from 3)"
    unfolding isWeekend_def Let_def wd by simp_all
  have "\<forall>j. 1 \<le> j \<and> j < 3 \<longrightarrow> non_business_day api (days_before from j)"
  proof (intro allI impI)
    fix j :: nat assume "1 \<le> j \<and> j < 3"
    then have "j = 1 \<or> j = 2" by arith
    with we show "non_business_day api (days_before from j)"
      by (auto simp add: non_business_day_def)
  qed
  moreover have "business_day api (days_before from 3)"
    using we assms(2) by (simp add: business_day_def)
  ultimately have "findPreviousBusinessDay api from net =
      ((days_before from 3, None), net @ probes from 3)"
    by (intro find_found) simp_all
  moreover have "probes from 3 = [url_of (days_before from 3)]"
    using we by (simp add: probes_Suc probes_0 eval_nat_numeral)
  ultimately show ?thesis
    using wd by (simp add: days_before_def AddDate_days)
qed

theorem monday_yields_previous_friday_witness:
  "Weekday (Date 2025 7 28) = Monday
   \<and> holiday_answer no_holidays (Date 2025 7 25) = Inr False
   \<and> findPreviousBusinessDay no_holidays (Date 2025 7 28) [] =
       ((Date 2025 7 25, None), [(2025, 7, 25)])
   \<and> Weekday (Date 2025 7 25) = Friday"
proof -
  have monday: "Weekday (Date 2025 7 28) = Monday" by code_simp
  have none: "\<forall>t. holiday_answer no_holidays t = Inr False"
    by (simp add: holiday_answer_url no_holidays_def)
  have friday: "AddDate (Date 2025 7 28) 0 0 (- 3) = Date 2025 7 25"
    and url: "url_of (Date 2025 7 25) = (2025, 7, 25)"
    by code_simp+
  from monday_yields_previous_friday [OF monday none, of "[]"] monday none friday url
  show ?thesis by simp
qed

text \<open>
  \<^bold>\<open>C6.\<close> Let the \<open>k\<close>-th day before the base date, \<open>k\<close> from 1 to 30, be a
  weekday that the service reports as a holiday. Then no run returns that day. And when all
  nearer days are weekend days or reported holidays, so that the scan reaches the day, the
  run requests it and goes on to the days before it: the requests are those of the nearer
  weekdays, then the request for the holiday, then those of the weekdays among the days
  \<open>k + 1\<close> to \<open>n\<close> in that order, where \<open>n\<close> is the last day examined and lies beyond
  \<open>k\<close> unless \<open>k\<close> is 30; the days between \<open>k\<close> and \<open>n\<close> are rejected as well, and
  the result is the \<open>n\<close>-th day when the service answers that it is no holiday, the wrapped
  error when the call for it fails, and "not found" when the 30th day is rejected too.
\<close>

theorem reported_holiday_is_skipped:
  assumes "1 \<le> k" and "k \<le> 30"
    and "\<not> isWeekend (days_before from k)"
    and "holiday_answer api (days_before from k) = Inr True"
    and "findPreviousBusinessDay api from net = (r, net')"
  shows "(\<forall>d. r = (d, None) \<longrightarrow> abs_day d \<noteq> abs_day from - int k)
       \<and> ((\<forall>j. 1 \<le> j \<and> j < k \<longrightarrow>
              isWeekend (days_before from j) \<or> holiday_answer api (days_before from j) = Inr True)
           \<longrightarrow>
           (\<exists>n. k \<le> n \<and> n \<le> 30 \<and> (k < 30 \<longrightarrow> k < n)
              \<and> net' = net
                   @ map url_of (filter (\<lambda>c. \<not> isWeekend c) (map (days_before from) [1..<k]))
                   @ [url_of (days_before from k)]
                   @ map url_of (filter (\<lambda>c. \<not> isWeekend c)
                                   (map (days_before from) [Suc k..<Suc n]))
              \<and> (\<forall>j. k < j \<and> j < n \<longrightarrow>
                    isWeekend (days_before from j)
                    \<or> holiday_answer api (days_before from j) = Inr True)
              \<and> (if isWeekend (days_before from n)
                     \<or> holiday_answer api (days_before from n) = Inr True
                  then n = 30 \<and> r = (zero_time, Some Not_found)
                  else (case holiday_answer api (days_before from n) of
                          Inr h \<Rightarrow> r = (days_before from n, None)
                        | Inl e \<Rightarrow> r = (zero_time, Some (Business_day_error e))))))"
proof -
  have never: "abs_day d \<noteq> abs_day from - int k" if "r = (d, None)" for d
  proof (cases rule: find_cases [of api "from" net])
    case (found k')
    with that assms(5) have d: "d = days_before from k'" by simp
    show ?thesis
    proof
      assume "abs_day d = abs_day from - int k"
      then have "k' = k" by (simp add: d abs_day_days_before)
      with found(4) assms(4) show False by (simp add: business_day_def)
    qed
  next
    case (failed k' e)
    with that assms(5) show ?thesis by simp
  next
    case exhausted
    with that assms(5) show ?thesis by simp
  qed
  have continues: "\<exists>n. k \<le> n \<and> n \<le> 30 \<and> (k < 30 \<longrightarrow> k < n)
              \<and> net' = net
                   @ map url_of (filter (\<lambda>c. \<not> isWeekend c) (map (days_before from) [1..<k]))
                   @ [url_of (days_before from k)]
                   @ map url_of (filter (\<lambda>c. \<not> isWeekend c)
                                   (map (days_before from) [Suc k..<Suc n]))
              \<and> (\<forall>j. k < j \<and> j < n \<longrightarrow>
                    isWeekend (days_before from j)
                    \<or> holiday_answer api (days_before from j) = Inr True)
              \<and> (if isWeekend (days_before from n)
                     \<or> holiday_answer api (days_before from n) = Inr True
                  then n = 30 \<and> r = (zero_time, Some Not_found)
                  else (case holiday_answer api (days_before from n) of
                          Inr h \<Rightarrow> r = (days_before from n, None)
                        | Inl e \<Rightarrow> r = (zero_time, Some (Business_day_error e))))"
    if before: "\<forall>j. 1 \<le> j \<and> j < k \<longrightarrow>
              isWeekend (days_before from j) \<or> holiday_answer api (days_before from j) = Inr True"
  proof -
    have upto: "non_business_day api (days_before from j)" if "1 \<le> j" "j \<le> k" for j
    proof (cases "j = k")
      case True
      with assms(4) show ?thesis by (simp add: non_business_day_def)
    next
      case False
      with that have "1 \<le> j \<and> j < k" by simp
      with before show ?thesis by (simp add: non_business_day_def)
    qed
    show ?thesis
    proof (cases rule: find_cases [of api "from" net])
      case (found n)
      have "\<not> n \<le> k"
        using upto [of n] found(1,4) non_business_not_business by blast
      then have kn: "k < n" by simp
      from found(5) assms(5) have r: "r = (days_before from n, None)"
        and net': "net' = net @ probes from n" by simp_all
      have log: "probes from n =
           map url_of (filter (\<lambda>c. \<not> isWeekend c) (map (days_before from) [1..<k]))
           @ [url_of (days_before from k)]
           @ map url_of (filter (\<lambda>c. \<not> isWeekend c) (map (days_before from) [Suc k..<Suc n]))"
        using assms(1,3) kn by (intro probes_split) simp_all
      have mid: "\<forall>j. k < j \<and> j < n \<longrightarrow> isWeekend (days_before from j)
                    \<or> holiday_answer api (days_before from j) = Inr True"
        using found(3) assms(1) by (auto simp add: non_business_day_def)
      have last: "\<not> isWeekend (days_before from n)"
        "holiday_answer api (days_before from n) = Inr False"
        using found(4) by (simp_all add: business_day_def)
      show ?thesis
        using kn found(2) mid last r unfolding net' log
        by (intro exI [of _ n]) simp
    next
      case (failed n e)
      have "\<not> non_business_day api (days_before from n)"
        using failed(4,5) by (simp add: non_business_day_def)
      then have "\<not> n \<le> k" using upto [of n] failed(1) by blast
      then have kn: "k < n" by simp
      from failed(6) assms(5) have r: "r = (zero_time, Some (Business_day_error e))"
        and net': "net' = net @ probes from n" by simp_all
      have log: "probes from n =
           map url_of (filter (\<lambda>c. \<not> isWeekend c) (map (days_before from) [1..<k]))
           @ [url_of (days_before from k)]
           @ map url_of (filter (\<lambda>c. \<not> isWeekend c) (map (days_before from) [Suc k..<Suc n]))"
        using assms(1,3) kn by (intro probes_split) simp_all
      have mid: "\<forall>j. k < j \<and> j < n \<longrightarrow> isWeekend (days_before from j)
                    \<or> holiday_answer api (days_before from j) = Inr True"
        using failed(3) assms(1) by (auto simp add: non_business_day_def)
      show ?thesis
        using kn failed(2,4,5) mid r unfolding net' log
        by (intro exI [of _ n]) simp
    next
      case exhausted
      from exhausted(2) assms(5) have r: "r = (zero_time, Some Not_found)"
        and net': "net' = net @ probes from 30" by simp_all
      have log: "probes from 30 =
           map url_of (filter (\<lambda>c. \<not> isWeekend c) (map (days_before from) [1..<k]))
           @ [url_of (days_before from k)]
           @ map url_of (filter (\<lambda>c. \<not> isWeekend c) (map (days_before from) [Suc k..<Suc 30]))"
        using assms(1,2,3) by (intro probes_split) simp_all
      have mid: "\<forall>j. k < j \<and> j < 30 \<longrightarrow> isWeekend (days_before from j)
                    \<or> holiday_answer api (days_before from j) = Inr True"
        using exhausted(1) assms(1) by (auto simp add: non_business_day_def)
      have last: "isWeekend (days_before from 30)
                    \<or> holiday_answer api (days_before from 30) = Inr True"
        using exhausted(1) by (simp add: non_business_day_def)
      show ?thesis
        using assms(2) mid last r unfolding net' log
        by (intro exI [of _ 30]) simp
    qed
  qed
  from never continues show ?thesis by blast
qed

theorem reported_holiday_is_skipped_witness:
  "\<not> isWeekend (days_before (Date 2025 5 7) 2)
   \<and> holiday_answer golden_week (days_before (Date 2025 5 7) 2) = Inr True
   \<and> holiday_answer golden_week (days_before (Date 2025 5 7) 1) = Inr True
   \<and> findPreviousBusinessDay golden_week (Date 2025 5 7) [] =
       ((Date 2025 5 2, None), [(2025, 5, 6), (2025, 5, 5), (2025, 5, 2)])
   \<and> abs_day (Date 2025 5 2) \<noteq> abs_day (Date 2025 5 7) - int 2
   \<and> (\<exists>n. 2 < n \<and> n \<le> 30
        \<and> (Date 2025 5 2, None :: error option) = (days_before (Date 2025 5 7) n, None)
        \<and> [] @ [(2025, 5, 6), (2025, 5, 5), (2025, 5, 2)] =
            [] @ map url_of (filter (\<lambda>c. \<not> isWeekend c)
                              (map (days_before (Date 2025 5 7)) [1..<2]))
               @ [url_of (days_before (Date 2025 5 7) 2)]
               @ map url_of (filter (\<lambda>c. \<not> isWeekend c)
                              (map (days_before (Date 2025 5 7)) [Suc 2..<Suc n])))"
proof -
  have k: "(1::nat) \<le> 2" "(2::nat) \<le> 30" by simp_all
  have wd: "\<not> isWeekend (days_before (Date 2025 5 7) 2)"
    and hol: "holiday_answer golden_week (days_before (Date 2025 5 7) 2) = Inr True"
    and first: "holiday_answer golden_week (days_before (Date 2025 5 7) 1) = Inr True"
    by code_simp+
  have before: "\<forall>j. 1 \<le> j \<and> j < 2 \<longrightarrow>
      isWeekend (days_before (Date 2025 5 7) j)
      \<or> holiday_answer golden_week (days_before (Date 2025 5 7) j) = Inr True"
  proof (intro allI impI)
    fix j :: nat assume "1 \<le> j \<and> j < 2"
    then have "j = 1" by arith
    with first show "isWeekend (days_before (Date 2025 5 7) j)
      \<or> holiday_answer golden_week (days_before (Date 2025 5 7) j) = Inr True" by simp
  qed
  note skipped = reported_holiday_is_skipped [OF k wd hol golden_week_run]
  from skipped have never: "abs_day (Date 2025 5 2) \<noteq> abs_day (Date 2025 5 7) - int 2"
    by blast
  note reached = skipped [THEN conjunct2, THEN mp, OF before]
  have "\<exists>n. 2 < n \<and> n \<le> 30
        \<and> (Date 2025 5 2, None :: error option) = (days_before (Date 2025 5 7) n, None)
        \<and> [] @ [(2025, 5, 6), (2025, 5, 5), (2025, 5, 2)] =
            [] @ map url_of (filter (\<lambda>c. \<not> isWeekend c)
                              (map (days_before (Date 2025 5 7)) [1..<2]))
               @ [url_of (days_before (Date 2025 5 7) 2)]
               @ map url_of (filter (\<lambda>c. \<not> isWeekend c)
                              (map (days_before (Date 2025 5 7)) [Suc 2..<Suc n]))"
    using reached
  proof (elim exE conjE)
    fix n :: nat
    assume n: "n \<le> 30" "(2::nat) < 30 \<longrightarrow> 2 < n"
      and log: "[] @ [(2025, 5, 6), (2025, 5, 5), (2025, 5, 2)] =
            [] @ map url_of (filter (\<lambda>c. \<not> isWeekend c)
                              (map (days_before (Date 2025 5 7)) [1..<2]))
               @ [url_of (days_before (Date 2025 5 7) 2)]
               @ map url_of (filter (\<lambda>c. \<not> isWeekend c)
                              (map (days_before (Date 2025 5 7)) [Suc 2..<Suc n]))"
      and res: "if isWeekend (days_before (Date 2025 5 7) n)
                 \<or> holiday_answer golden_week (days_before (Date 2025 5 7) n) = Inr True
              then n = 30 \<and> (Date 2025 5 2, None) = (zero_time, Some Not_found)
              else (case holiday_answer golden_week (days_before (Date 2025 5 7) n) of
                      Inr h \<Rightarrow> (Date 2025 5 2, None) = (days_before (Date 2025 5 7) n, None)
                    | Inl e \<Rightarrow> (Date 2025 5 2, None) = (zero_time, Some (Business_day_error e)))"
    from n(2) have gt: "2 < n" by simp
    from res have "(Date 2025 5 2, None :: error option) = (days_before (Date 2025 5 7) n, None)"
      by (cases "holiday_answer golden_week (days_before (Date 2025 5 7) n)")
         (auto split: if_splits)
    with gt n(1) log show ?thesis by (intro exI [of _ n] conjI)
  qed
  moreover have "findPreviousBusinessDay golden_week (Date 2025 5 7) [] =
       ((Date 2025 5 2, None), [(2025, 5, 6), (2025, 5, 5), (2025, 5, 2)])"
    using golden_week_run by simp
  ultimately show ?thesis using wd hol first never by blast
qed

text \<open>
  \<^bold>\<open>C7.\<close> As stated for every \<^verbatim>\<open>-date\<close> string that does not parse, the claim fails
  at the empty string, which the program takes as "no date given" and replaces by today, and
  whenever \<^verbatim>\<open>-help\<close> is given as well, which prints the help text and exits with status 0
  before the date is looked at. What holds: when \<^verbatim>\<open>-help\<close> is not given, for every
  non-empty \<^verbatim>\<open>-date\<close> string that does not parse, the program prints the
  invalid-date-format error for that string on standard error and exits with status 1,
  without starting a scan and without sending a request.
\<close>

theorem unparsable_date_is_rejected:
  assumes "\<not> help_flag fl" and "dateStr fl \<noteq> []" and "Parse (dateStr fl) = None"
  shows "main Parse now api fl =
           \<lparr>exit_status = 1, stdout = [], stderr = [Invalid_date_format (dateStr fl)],
            scanned = [], requests = []\<rparr>"
  using assms by (simp add: main_def)

theorem unparsable_date_is_rejected_witness:
  "\<not> help_flag \<lparr>dateStr = ''2025-02-29'', verbose = False, help_flag = False\<rparr>
   \<and> Parse_ISO ''2025-02-29'' = None
   \<and> main Parse_ISO (Date 2025 7 24) golden_week
        \<lparr>dateStr = ''2025-02-29'', verbose = False, help_flag = False\<rparr> =
       \<lparr>exit_status = 1, stdout = [], stderr = [Invalid_date_format ''2025-02-29''],
        scanned = [], requests = []\<rparr>"
proof -
  have p: "Parse_ISO (dateStr \<lparr>dateStr = ''2025-02-29'', verbose = False, help_flag = False\<rparr>) = None"
    by code_simp
  have h: "\<not> help_flag \<lparr>dateStr = ''2025-02-29'', verbose = False, help_flag = False\<rparr>"
    and n: "dateStr \<lparr>dateStr = ''2025-02-29'', verbose = False, help_flag = False\<rparr> \<noteq> []"
    by simp_all
  from unparsable_date_is_rejected
      [where Parse = Parse_ISO and now = "Date 2025 7 24" and api = golden_week, OF h n p] p
  show ?thesis by simp
qed

theorem unparsable_date_counterexample:
  "Parse_ISO [] = None
   \<and> main Parse_ISO (Date 2025 7 24) no_holidays
        \<lparr>dateStr = [], verbose = False, help_flag = False\<rparr> =
       \<lparr>exit_status = 0, stdout = [Simple_line (Date 2025 7 23)], stderr = [],
        scanned = [Date 2025 7 24], requests = [(2025, 7, 23)]\<rparr>
   \<and> Parse_ISO ''yesterday'' = None
   \<and> main Parse_ISO (Date 2025 7 24) no_holidays
        \<lparr>dateStr = ''yesterday'', verbose = False, help_flag = True\<rparr> =
       \<lparr>exit_status = 0, stdout = [Help_text], stderr = [], scanned = [], requests = []\<rparr>"
  by code_simp

text \<open>
  \<^bold>\<open>C8.\<close> Whenever \<^verbatim>\<open>findPreviousBusinessDay\<close> returns an error, the date it returns
  with it is the zero time.
\<close>

theorem error_returns_zero_time:
  assumes "findPreviousBusinessDay api from net = ((d, Some e), net')"
  shows "d = zero_time"
  using assms by (cases rule: find_cases [of api "from" net]) simp_all

theorem error_returns_zero_time_witness:
  "snd (fst (findPreviousBusinessDay always_holiday (Date 2025 5 7) [])) = Some Not_found
   \<and> fst (fst (findPreviousBusinessDay always_holiday (Date 2025 5 7) [])) = zero_time"
proof -
  have err: "snd (fst (findPreviousBusinessDay always_holiday (Date 2025 5 7) [])) = Some Not_found"
    by code_simp
  then have "findPreviousBusinessDay always_holiday (Date 2025 5 7) [] =
      ((fst (fst (findPreviousBusinessDay always_holiday (Date 2025 5 7) [])), Some Not_found),
       snd (findPreviousBusinessDay always_holiday (Date 2025 5 7) []))"
    by (metis prod.collapse)
  from error_returns_zero_time [OF this] err show ?thesis by simp
qed

text \<open>
  \<^bold>\<open>C9.\<close> The result depends on the replies only through what is left of them when
  the holiday name is blanked: a second service whose replies to the requests of the run
  agree with those of the first up to the name gives the same date, the same error and
  the same requests.
\<close>

theorem result_independent_of_holiday_name:
  assumes "findPreviousBusinessDay api1 from net = (r, net @ qs)"
    and "\<forall>q\<in>set qs. erase_name (api2 q) = erase_name (api1 q)"
  shows "findPreviousBusinessDay api2 from net = (r, net @ qs)"
  using assms(1)
proof (rule find_agree)
  show "\<forall>j. 1 \<le> j \<and> j \<le> 30 \<and> url_of (days_before from j) \<in> set qs \<longrightarrow>
       holiday_answer api2 (days_before from j) = holiday_answer api1 (days_before from j)"
    using assms(2) holiday_answer_erase by blast
qed

theorem result_independent_of_holiday_name_witness:
  "findPreviousBusinessDay golden_week (Date 2025 5 7) [] =
     ((Date 2025 5 2, None), [(2025, 5, 6), (2025, 5, 5), (2025, 5, 2)])
   \<and> golden_week_renamed (2025, 5, 6) \<noteq> golden_week (2025, 5, 6)
   \<and> findPreviousBusinessDay golden_week_renamed (Date 2025 5 7) [] =
     ((Date 2025 5 2, None), [(2025, 5, 6), (2025, 5, 5), (2025, 5, 2)])"
proof -
  have same: "\<forall>q\<in>set [(2025, 5, 6), (2025, 5, 5), (2025, 5, 2)].
      erase_name (golden_week_renamed q) = erase_name (golden_week q)"
    by (simp add: golden_week_renamed_def golden_week_def erase_name_def)
  have differ: "golden_week_renamed (2025, 5, 6) \<noteq> golden_week (2025, 5, 6)"
    by (simp add: golden_week_renamed_def golden_week_def)
  from result_independent_of_holiday_name [OF golden_week_run same] golden_week_run differ
  show ?thesis by simp
qed

text \<open>
  \<^bold>\<open>C10.\<close> A date that \<^verbatim>\<open>findPreviousBusinessDay\<close> returns without an error is the base
  date moved back by \<open>k\<close> days, for some \<open>k\<close> from 1 to 30.
\<close>

theorem result_within_thirty_days:
  assumes "findPreviousBusinessDay api from net = ((d, None), net')"
  shows "\<exists>k. 1 \<le> k \<and> k \<le> 30 \<and> d = AddDate from 0 0 (- int k)"
proof (cases rule: find_cases [of api "from" net])
  case (found k)
  with assms have "d = AddDate from 0 0 (- int k)" by (simp add: days_before_def AddDate_days)
  with found(1,2) show ?thesis by blast
next
  case (failed k e)
  with assms show ?thesis by simp
next
  case exhausted
  with assms show ?thesis by simp
qed

theorem result_within_thirty_days_witness:
  "findPreviousBusinessDay no_holidays (Date 2025 7 24) [] =
     ((Date 2025 7 23, None), [(2025, 7, 23)])
   \<and> (\<exists>k. 1 \<le> k \<and> k \<le> 30 \<and> Date 2025 7 23 = AddDate (Date 2025 7 24) 0 0 (- int k))"
proof -
  have run: "findPreviousBusinessDay no_holidays (Date 2025 7 24) [] =
     ((Date 2025 7 23, None), [(2025, 7, 23)])"
    by code_simp
  from result_within_thirty_days [OF run] run show ?thesis by blast
qed

end
